theory Spec2Isabelle
  imports Complex_Main "HOL-Library.Multiset"
begin

section \<open>Configuration (app.py, lines 16--20)\<close>

text \<open>
  \<^verbatim>\<open>TOP_K = 5\<close> and \<^verbatim>\<open>POSTER_BASE\<close> are module constants.  \<^verbatim>\<open>TMDB_API_KEY\<close> is read
  once from the secret store or the environment: it is a string or \<^verbatim>\<open>None\<close>, and the code
  only ever tests its truthiness (\<^verbatim>\<open>if not TMDB_API_KEY\<close>), which for a Python string
  means "not \<^verbatim>\<open>None\<close> and not empty".
\<close>

definition TOP_K :: nat where
  "TOP_K = 5"

definition POSTER_BASE :: string where
  "POSTER_BASE = ''https://image.tmdb.org/t/p/w500''"

type_synonym api_key = "string option"

definition truthy :: "api_key \<Rightarrow> bool" where
  "truthy k = (case k of None \<Rightarrow> False | Some s \<Rightarrow> s \<noteq> [])"

section \<open>Python values the code relies on\<close>

datatype error = IndexError | KeyError

text \<open>
  \<^verbatim>\<open>xs[i]\<close> on a list or on the first axis of an array: an index in \<open>[0, n)\<close> reads
  from the front, one in \<open>[-n, 0)\<close> from the back, anything else raises.
\<close>

definition getitem :: "'a list \<Rightarrow> int \<Rightarrow> error + 'a" where
  "getitem xs i =
     (if 0 \<le> i \<and> i < int (length xs) then Inr (xs ! nat i)
      else if i < 0 \<and> - int (length xs) \<le> i then Inr (xs ! nat (int (length xs) + i))
      else Inl IndexError)"

text \<open>
  \<^verbatim>\<open>list.sort(key=f, reverse=True)\<close>.  The sort is stable; with \<^verbatim>\<open>reverse=True\<close> CPython
  reverses the list, sorts it stably in ascending key order and reverses the outcome, so
  that elements with equal keys keep their original relative order.  The outcome of a
  stable sort under a total order does not depend on the algorithm, so the library's
  stable \<^const>\<open>sort_key\<close> stands for Timsort.  Scores are taken from an arbitrary linear
  order: a NaN score, which compares false with everything, is not a value of the model.
\<close>

definition sort_reverse :: "('a \<Rightarrow> 'k::linorder) \<Rightarrow> 'a list \<Rightarrow> 'a list" where
  "sort_reverse f xs = rev (sort_key f (rev xs))"

section \<open>The catalog: a pandas DataFrame\<close>

text \<open>
  The frame is held by columns, as pandas holds it: the row labels (\<^verbatim>\<open>movies_df.index\<close>),
  the \<^verbatim>\<open>title\<close> column, and the two identifier columns the code looks for, each of which
  may be missing.  Titles are strings and identifiers integers (the result type the code
  declares); a frame with no \<^verbatim>\<open>title\<close> column is not a value of the model.  pandas keeps
  every column as long as the index, which is \<open>wf_dataframe\<close>.
\<close>

record dataframe =
  df_index :: "int list"
  col_title :: "string list"
  col_movie_id :: "int list option"
  col_id :: "int list option"

definition col_ok :: "dataframe \<Rightarrow> int list option \<Rightarrow> bool" where
  "col_ok df col = (case col of None \<Rightarrow> True | Some c \<Rightarrow> length c = length (df_index df))"

definition wf_dataframe :: "dataframe \<Rightarrow> bool" where
  "wf_dataframe df \<longleftrightarrow>
     length (col_title df) = length (df_index df) \<and>
     col_ok df (col_movie_id df) \<and> col_ok df (col_id df)"

text \<open>\<^verbatim>\<open>movies_df.index[movies_df["title"] == selected_title]\<close>: the labels of the rows
  whose title equals the selection, in row order.\<close>

definition matches :: "dataframe \<Rightarrow> string \<Rightarrow> int list" where
  "matches df selected_title =
     map fst (filter (\<lambda>lt. snd lt = selected_title) (zip (df_index df) (col_title df)))"

datatype id_col = MovieId | Id

text \<open>\<^verbatim>\<open>"movie_id" if "movie_id" in movies_df.columns else ("id" if "id" in
  movies_df.columns else None)\<close>\<close>

definition id_col_of :: "dataframe \<Rightarrow> id_col option" where
  "id_col_of df =
     (if col_movie_id df \<noteq> None then Some MovieId
      else if col_id df \<noteq> None then Some Id
      else None)"

text \<open>\<^verbatim>\<open>movies_df.iloc[i]\<close> for a position \<open>i\<close> produced by \<^verbatim>\<open>enumerate\<close> (never negative):
  the row at that position, or IndexError past the end.  A row is its title and its
  entries in the identifier columns that exist.\<close>

record row =
  row_title :: string
  row_movie_id :: "int option"
  row_id :: "int option"

definition cell :: "int list option \<Rightarrow> nat \<Rightarrow> int option" where
  "cell col i = (case col of None \<Rightarrow> None | Some c \<Rightarrow> Some (c ! i))"

definition iloc :: "dataframe \<Rightarrow> nat \<Rightarrow> error + row" where
  "iloc df i =
     (if i < length (df_index df)
      then Inr \<lparr>row_title = col_title df ! i,
                row_movie_id = cell (col_movie_id df) i,
                row_id = cell (col_id df) i\<rparr>
      else Inl IndexError)"

text \<open>\<^verbatim>\<open>row[id_col]\<close>; the column exists whenever \<open>id_col_of\<close> chose it, and KeyError stands
  for the lookup of a column that does not.\<close>

definition row_get :: "row \<Rightarrow> id_col \<Rightarrow> error + int" where
  "row_get r c =
     (case (case c of MovieId \<Rightarrow> row_movie_id r | Id \<Rightarrow> row_id r) of
        None \<Rightarrow> Inl KeyError
      | Some v \<Rightarrow> Inr v)"

section \<open>The metadata service and the cached lookups\<close>

text \<open>
  The HTTP exchange is outside the program.  What the code sees of it is either a
  \<^verbatim>\<open>requests.RequestException\<close> (connection failure, timeout, an error status turned into
  an exception by \<^verbatim>\<open>raise_for_status\<close>, a body that is not JSON) or the decoded JSON
  object, of which it reads one entry.  The service is a parameter of the model: a function
  from the request to what the code sees.
\<close>

datatype movie_response = MovieRequestException | MovieJson "string option"

text \<open>The body of \<^verbatim>\<open>fetch_poster\<close> (lines 94--106).  \<open>MovieJson p\<close> carries
  \<^verbatim>\<open>r.json().get("poster_path")\<close>: \<open>None\<close> when the entry is missing or null.\<close>

definition fetch_poster_body :: "api_key \<Rightarrow> (int \<Rightarrow> movie_response) \<Rightarrow> int \<Rightarrow> string option" where
  "fetch_poster_body key tmdb movie_id =
     (if \<not> truthy key then None
      else case tmdb movie_id of
        MovieRequestException \<Rightarrow> None
      | MovieJson poster_path \<Rightarrow>
          (case poster_path of
             None \<Rightarrow> None
           | Some p \<Rightarrow> if p \<noteq> [] then Some (POSTER_BASE @ p) else None))"

text \<open>
  \<^verbatim>\<open>@st.cache_data(ttl=...)\<close> memoises a function by its arguments: a call whose arguments
  are in the cache returns the stored value without running the body, any other call runs
  the body and stores what it returned.  The cache is state of the process and is passed
  explicitly.  Expiry after the time-to-live removes entries; it is a step of the cache
  (see \<open>poster_caches\<close> below), not of the call.
\<close>

definition cache_data :: "('k \<Rightarrow> 'v) \<Rightarrow> ('k \<rightharpoonup> 'v) \<Rightarrow> 'k \<Rightarrow> 'v \<times> ('k \<rightharpoonup> 'v)" where
  "cache_data body cache k =
     (case cache k of
        Some v \<Rightarrow> (v, cache)
      | None \<Rightarrow> (body k, cache(k \<mapsto> body k)))"

type_synonym poster_cache = "int \<rightharpoonup> string option"

definition fetch_poster ::
  "api_key \<Rightarrow> (int \<Rightarrow> movie_response) \<Rightarrow> poster_cache \<Rightarrow> int \<Rightarrow> string option \<times> poster_cache" where
  "fetch_poster key tmdb cache movie_id = cache_data (fetch_poster_body key tmdb) cache movie_id"

section \<open>recommend (lines 109--134)\<close>

text \<open>\<^verbatim>\<open>i_sel\<close>: the label of the first matching row, when there is one.\<close>

definition i_sel_of :: "dataframe \<Rightarrow> string \<Rightarrow> int option" where
  "i_sel_of df selected_title =
     (case matches df selected_title of [] \<Rightarrow> None | m # _ \<Rightarrow> Some m)"

text \<open>Lines 117--119: enumerate the row, sort by score descending, drop the selected
  position, keep the first \<open>TOP_K\<close> positions.\<close>

definition top_idxs :: "'s::linorder list \<Rightarrow> int \<Rightarrow> nat list" where
  "top_idxs sim_row i_sel =
     take TOP_K
       (filter (\<lambda>i. int i \<noteq> i_sel)
          (map fst (sort_reverse snd (enumerate 0 sim_row))))"

type_synonym recommendation = "string list \<times> string option list \<times> int list"

text \<open>The loop of lines 124--133, with the three lists as accumulators.  An exception
  leaves the loop; the cache keeps what earlier iterations stored.\<close>

fun collect ::
  "api_key \<Rightarrow> (int \<Rightarrow> movie_response) \<Rightarrow> dataframe \<Rightarrow> id_col option \<Rightarrow> nat list \<Rightarrow>
   recommendation \<Rightarrow> poster_cache \<Rightarrow> (error + recommendation) \<times> poster_cache" where
  "collect key tmdb df idc [] acc cache = (Inr acc, cache)"
| "collect key tmdb df idc (i # rest) (names, posters, ids) cache =
     (case iloc df i of
        Inl e \<Rightarrow> (Inl e, cache)
      | Inr r \<Rightarrow>
          (case idc of
             Some c \<Rightarrow>
               (case row_get r c of
                  Inl e \<Rightarrow> (Inl e, cache)
                | Inr tmdb_id \<Rightarrow>
                    (case fetch_poster key tmdb cache tmdb_id of
                       (poster, cache') \<Rightarrow>
                         collect key tmdb df idc rest
                           (names @ [row_title r], posters @ [poster], ids @ [tmdb_id]) cache'))
           | None \<Rightarrow>
               collect key tmdb df idc rest
                 (names @ [row_title r], posters @ [None], ids @ [-1]) cache))"

definition recommend ::
  "api_key \<Rightarrow> (int \<Rightarrow> movie_response) \<Rightarrow> string \<Rightarrow> dataframe \<Rightarrow> 's::linorder list list \<Rightarrow>
   poster_cache \<Rightarrow> (error + recommendation) \<times> poster_cache" where
  "recommend key tmdb selected_title movies_df similarity_matrix cache =
     (case i_sel_of movies_df selected_title of
        None \<Rightarrow> (Inr ([], [], []), cache)
      | Some i_sel \<Rightarrow>
          (case getitem similarity_matrix i_sel of
             Inl e \<Rightarrow> (Inl e, cache)
           | Inr sim_row \<Rightarrow>
               collect key tmdb movies_df (id_col_of movies_df)
                 (top_idxs sim_row i_sel) ([], [], []) cache))"

text \<open>What a caller that only looks at titles and identifiers sees of an outcome.\<close>

definition names_and_ids :: "error + recommendation \<Rightarrow> error + string list \<times> int list" where
  "names_and_ids out =
     (case out of Inl e \<Rightarrow> Inl e | Inr (names, posters, ids) \<Rightarrow> Inr (names, ids))"

section \<open>Browse by genre (lines 138--181 and 254--265)\<close>

definition GENRES :: "(string \<times> int) list" where
  "GENRES =
     [(''Action'', 28), (''Adventure'', 12), (''Animation'', 16), (''Comedy'', 35),
      (''Crime'', 80), (''Documentary'', 99), (''Drama'', 18), (''Family'', 10751),
      (''Fantasy'', 14), (''History'', 36), (''Horror'', 27), (''Musical'', 10402),
      (''Mystery'', 9648), (''Romance'', 10749), (''Science Fiction'', 878),
      (''Thriller'', 53), (''War'', 10752)]"

text \<open>
  The discovery request either raises a \<^verbatim>\<open>RequestException\<close> or yields a JSON body, of
  which the code reads \<^verbatim>\<open>(r.json() or {}).get("results", [])\<close>: the entry may be missing
  (also when the body itself is empty or null), be null, or be a list of movie objects.
  The movie objects are passed on as they are and stay abstract (\<open>'m\<close>).
\<close>

datatype 'm results_entry = ResultsMissing | ResultsNull | Results "'m list"

datatype 'm discover_response = DiscoverRequestException | DiscoverJson "'m results_entry"

text \<open>The body of \<^verbatim>\<open>fetch_by_genre\<close>; the arguments are the pair (genre_id, page).  The
  value is \<open>None\<close> where Python returns \<^verbatim>\<open>None\<close> (a null \<^verbatim>\<open>results\<close> entry).\<close>

definition fetch_by_genre_body ::
  "api_key \<Rightarrow> (int \<times> int \<Rightarrow> 'm discover_response) \<Rightarrow> int \<times> int \<Rightarrow> 'm list option" where
  "fetch_by_genre_body key tmdb args =
     (if \<not> truthy key then Some []
      else case tmdb args of
        DiscoverRequestException \<Rightarrow> Some []
      | DiscoverJson ResultsMissing \<Rightarrow> Some []
      | DiscoverJson ResultsNull \<Rightarrow> None
      | DiscoverJson (Results ms) \<Rightarrow> Some ms)"

type_synonym 'm genre_cache = "int \<times> int \<rightharpoonup> 'm list option"

definition fetch_by_genre ::
  "api_key \<Rightarrow> (int \<times> int \<Rightarrow> 'm discover_response) \<Rightarrow> 'm genre_cache \<Rightarrow> int \<times> int \<Rightarrow>
   'm list option \<times> 'm genre_cache" where
  "fetch_by_genre key tmdb cache args = cache_data (fetch_by_genre_body key tmdb) cache args"

text \<open>\<^verbatim>\<open>(page or [])\<close>\<close>

definition or_empty :: "'m list option \<Rightarrow> 'm list" where
  "or_empty page = (case page of None \<Rightarrow> [] | Some ms \<Rightarrow> ms)"

text \<open>The handler of the "Show Genre" button (lines 254--266): what it puts on the screen
  is either the warning or one card for each element of \<^verbatim>\<open>results[:TOP_K]\<close>, in that
  order.\<close>

datatype 'm screen = CouldntFetchWarning | Cards "'m list"

definition show_genre ::
  "api_key \<Rightarrow> (int \<times> int \<Rightarrow> 'm discover_response) \<Rightarrow> 'm genre_cache \<Rightarrow> string \<Rightarrow>
   (error + 'm screen) \<times> 'm genre_cache" where
  "show_genre key tmdb cache genre_label =
     (case map_of GENRES genre_label of
        None \<Rightarrow> (Inl KeyError, cache)
      | Some gid \<Rightarrow>
          (case fetch_by_genre key tmdb cache (gid, 1) of
             (page1, cache1) \<Rightarrow>
               (case fetch_by_genre key tmdb cache1 (gid, 2) of
                  (page2, cache2) \<Rightarrow>
                    (let results = or_empty page1 @ or_empty page2
                     in (Inr (if results = [] then CouldntFetchWarning
                              else Cards (take TOP_K results)),
                         cache2)))))"

section \<open>The states a cache can be in\<close>

text \<open>
  A cache starts empty when the process starts, grows by calls of the cached function
  (each against whatever the service answers at that moment) and loses entries when they
  expire.  \<open>body env\<close> is the body of the cached function in the service state \<open>env\<close>;
  the credential is fixed for the life of the process and is part of \<open>body\<close>.
\<close>

inductive cache_states :: "('e \<Rightarrow> 'k \<Rightarrow> 'v) \<Rightarrow> ('k \<rightharpoonup> 'v) \<Rightarrow> bool" for body where
  start: "cache_states body Map.empty"
| call: "cache_states body cache \<Longrightarrow> cache_states body (snd (cache_data (body env) cache k))"
| expire: "cache_states body cache \<Longrightarrow> cache_states body (cache |` A)"

definition poster_caches :: "api_key \<Rightarrow> poster_cache \<Rightarrow> bool" where
  "poster_caches key = cache_states (fetch_poster_body key)"

definition genre_caches :: "api_key \<Rightarrow> 'm genre_cache \<Rightarrow> bool" where
  "genre_caches key = cache_states (fetch_by_genre_body key)"

section \<open>The data model's invariant and the ranking order\<close>

text \<open>
  The catalog and the matrix are aligned when the frame is well formed, its row labels are
  the positions \<open>0, \<dots>, N - 1\<close>, and the matrix has \<open>N\<close> rows of \<open>N\<close> scores each.
\<close>

definition aligned :: "dataframe \<Rightarrow> 's list list \<Rightarrow> bool" where
  "aligned df sim \<longleftrightarrow>
     wf_dataframe df \<and>
     df_index df = map int [0..<length (col_title df)] \<and>
     length sim = length (col_title df) \<and>
     list_all (\<lambda>r. length r = length (col_title df)) sim"

text \<open>Position \<open>a\<close> is ranked before position \<open>b\<close> for a row of scores: the higher score
  first, and of two equal scores the smaller position first.\<close>

definition ranked_before :: "'s::linorder list \<Rightarrow> nat \<Rightarrow> nat \<Rightarrow> bool" where
  "ranked_before sim_row a b \<longleftrightarrow>
     sim_row ! b < sim_row ! a \<or> (sim_row ! a = sim_row ! b \<and> a < b)"

section \<open>Service states and caches used in the examples\<close>

definition tmdb_down :: "int \<Rightarrow> movie_response" where
  "tmdb_down movie_id = MovieRequestException"

definition tmdb_up :: "int \<Rightarrow> movie_response" where
  "tmdb_up movie_id = MovieJson (Some ''/p.jpg'')"

definition empty_cache :: "'k \<rightharpoonup> 'v" where
  "empty_cache = Map.empty"

definition discover_two_pages :: "int \<times> int \<Rightarrow> nat discover_response" where
  "discover_two_pages args =
     (if snd args = 1 then DiscoverJson (Results [1, 2, 3]) else DiscoverJson (Results [4, 5, 6]))"

text \<open>Three catalogs with positional row labels: one with a \<^verbatim>\<open>movie_id\<close> column, one with
  no identifier column and a repeated title, one with an \<^verbatim>\<open>id\<close> column only.\<close>

definition catalog_abc :: dataframe where
  "catalog_abc =
     \<lparr>df_index = [0, 1, 2], col_title = [''A'', ''B'', ''C''],
      col_movie_id = Some [101, 102, 103], col_id = None\<rparr>"

definition catalog_aba :: dataframe where
  "catalog_aba =
     \<lparr>df_index = [0, 1, 2], col_title = [''A'', ''B'', ''A''],
      col_movie_id = None, col_id = None\<rparr>"

definition catalog_abcd :: dataframe where
  "catalog_abcd =
     \<lparr>df_index = [0, 1, 2, 3], col_title = [''A'', ''B'', ''C'', ''D''],
      col_movie_id = None, col_id = Some [11, 12, 13, 14]\<rparr>"

definition sim_tie :: "real list list" where
  "sim_tie = [[1, 0.5, 0.5], [0.5, 1, 0.2], [0.5, 0.2, 1]]"

definition sim_aba :: "real list list" where
  "sim_aba = [[1, 0, 1], [0, 1, 0], [1, 0, 1]]"

definition sim_abcd :: "real list list" where
  "sim_abcd =
     [[1, 0.9, 0.95, 0.1], [0.9, 1, 0.3, 0.2], [0.95, 0.3, 1, 0.4], [0.1, 0.2, 0.4, 1]]"

section \<open>Properties of the ranking\<close>

subsection \<open>The descending stable sort\<close>

lemma sort_reverse_stable:
  "filter (\<lambda>y. f y = k) (sort_reverse f xs) = filter (\<lambda>y. f y = k) xs"
  by (simp add: sort_reverse_def sort_key_stable flip: rev_filter)

lemma mset_sort_reverse: "mset (sort_reverse f xs) = mset xs"
  by (simp add: sort_reverse_def)

lemma set_sort_reverse: "set (sort_reverse f xs) = set xs"
  by (simp add: sort_reverse_def)

lemma sort_reverse_descending: "sorted_wrt (\<lambda>a b. f b \<le> f a) (sort_reverse f xs)"
proof -
  have "sorted_wrt (\<lambda>a b. f a \<le> f b) (sort_key f (rev xs))"
    using sorted_sort_key [of f "rev xs"] by (simp add: sorted_map)
  then show ?thesis
    by (simp add: sort_reverse_def sorted_wrt_rev)
qed

text \<open>A list in descending key order whose equal-key runs are ordered by \<open>Q\<close> is ordered
  by key first and by \<open>Q\<close> second.\<close>

lemma descending_with_ties:
  fixes f :: "'a \<Rightarrow> 'k::linorder"
  assumes "sorted_wrt (\<lambda>a b. f b \<le> f a) xs"
    and "\<And>k. sorted_wrt Q (filter (\<lambda>y. f y = k) xs)"
  shows "sorted_wrt (\<lambda>a b. f b < f a \<or> (f a = f b \<and> Q a b)) xs"
  using assms
proof (induction xs)
  case Nil
  then show ?case by simp
next
  case (Cons x xs)
  have tail: "sorted_wrt (\<lambda>a b. f b < f a \<or> (f a = f b \<and> Q a b)) xs"
  proof (rule Cons.IH)
    show "sorted_wrt (\<lambda>a b. f b \<le> f a) xs" using Cons.prems(1) by simp
    show "sorted_wrt Q (filter (\<lambda>y. f y = k) xs)" for k
      using Cons.prems(2) [of k] by (simp split: if_splits)
  qed
  have head: "f y < f x \<or> (f x = f y \<and> Q x y)" if "y \<in> set xs" for y
  proof (cases "f y = f x")
    case True
    have "sorted_wrt Q (x # filter (\<lambda>z. f z = f x) xs)"
      using Cons.prems(2) [of "f x"] by simp
    with that True show ?thesis by auto
  next
    case False
    moreover have "f y \<le> f x" using Cons.prems(1) that by simp
    ultimately show ?thesis by simp
  qed
  from tail head show ?case by simp
qed

lemma enumerate_ascending: "sorted_wrt (\<lambda>a b. fst a < fst b) (enumerate n xs)"
proof -
  have "sorted_wrt (<) (map fst (enumerate n xs))" by simp
  then show ?thesis by (simp only: sorted_wrt_map)
qed

lemma sorted_pairs:
  "sorted_wrt (\<lambda>a b. snd b < snd a \<or> (snd a = snd b \<and> fst a < fst b))
     (sort_reverse snd (enumerate 0 sim_row))"
proof (rule descending_with_ties)
  show "sorted_wrt (\<lambda>a b. snd b \<le> snd a) (sort_reverse snd (enumerate 0 sim_row))"
    by (rule sort_reverse_descending)
  show "sorted_wrt (\<lambda>a b. fst a < fst b)
          (filter (\<lambda>y. snd y = k) (sort_reverse snd (enumerate 0 sim_row)))" for k
    by (simp only: sort_reverse_stable sorted_wrt_filter enumerate_ascending)
qed

lemma in_enumerate_0: "p \<in> set (enumerate 0 xs) \<Longrightarrow> fst p < length xs \<and> snd p = xs ! fst p"
  by (cases p) (simp add: in_set_enumerate_eq)

lemma sorted_positions:
  "sorted_wrt (ranked_before sim_row) (map fst (sort_reverse snd (enumerate 0 sim_row)))"
proof -
  let ?S = "sort_reverse snd (enumerate 0 sim_row)"
  have "sorted_wrt (\<lambda>a b. ranked_before sim_row (fst a) (fst b)) ?S"
  proof (rule sorted_wrt_mono_rel [OF _ sorted_pairs])
    fix a b assume "a \<in> set ?S" "b \<in> set ?S"
      and "snd b < snd a \<or> (snd a = snd b \<and> fst a < fst b)"
    then show "ranked_before sim_row (fst a) (fst b)"
      using in_enumerate_0 [of a sim_row] in_enumerate_0 [of b sim_row]
      by (simp add: set_sort_reverse ranked_before_def)
  qed
  then show ?thesis by (simp only: sorted_wrt_map)
qed

subsection \<open>The ranking\<close>

lemma sorted_positions_mset:
  "mset (map fst (sort_reverse snd (enumerate 0 sim_row))) = mset [0..<length sim_row]"
proof -
  have "mset (map fst (sort_reverse snd (enumerate 0 sim_row)))
          = mset (map fst (enumerate 0 sim_row))"
    by (simp only: mset_map mset_sort_reverse)
  then show ?thesis
    by (simp only: map_fst_enumerate add_0)
qed

lemma top_idxs_sorted: "sorted_wrt (ranked_before sim_row) (top_idxs sim_row i_sel)"
  unfolding top_idxs_def
  by (intro sorted_wrt_take sorted_wrt_filter sorted_positions)

lemma top_idxs_set:
  "j \<in> set (top_idxs sim_row i_sel) \<Longrightarrow> j < length sim_row \<and> int j \<noteq> i_sel"
proof -
  assume "j \<in> set (top_idxs sim_row i_sel)"
  then have "j \<in> set (filter (\<lambda>i. int i \<noteq> i_sel) (map fst (sort_reverse snd (enumerate 0 sim_row))))"
    unfolding top_idxs_def by (rule in_set_takeD)
  then have "int j \<noteq> i_sel" and "j \<in> fst ` set (enumerate 0 sim_row)"
    by (simp_all add: set_sort_reverse)
  then show ?thesis by (auto dest: in_enumerate_0)
qed

lemma top_idxs_length_le: "length (top_idxs sim_row i_sel) \<le> TOP_K"
  by (simp add: top_idxs_def)

lemma length_filter_neq_upt:
  "length (filter (\<lambda>j. j \<noteq> i) [0..<n]) = (if i < n then n - 1 else n)"
  by (induction n) auto

lemma top_idxs_length:
  assumes "i < length sim_row"
  shows "length (top_idxs sim_row (int i)) = min TOP_K (length sim_row - 1)"
proof -
  let ?P = "\<lambda>j. int j \<noteq> int i"
  have "length (filter ?P (map fst (sort_reverse snd (enumerate 0 sim_row))))
          = size (filter_mset ?P (mset (map fst (sort_reverse snd (enumerate 0 sim_row)))))"
    by (simp only: mset_filter [symmetric] size_mset)
  also have "\<dots> = length (filter ?P [0..<length sim_row])"
    by (simp only: sorted_positions_mset mset_filter [symmetric] size_mset)
  also have "\<dots> = length sim_row - 1"
    using assms by (simp add: length_filter_neq_upt)
  finally show ?thesis
    by (simp add: top_idxs_def min.commute)
qed

subsection \<open>Looking the title up\<close>

lemma matches_absent: "selected_title \<notin> set (col_title df) \<Longrightarrow> matches df selected_title = []"
  by (auto simp: matches_def filter_empty_conv dest: set_zip_rightD)

lemma first_match:
  assumes "length ls = length ts" and "sel \<in> set ts"
  shows "\<exists>i ms. i < length ts \<and> map fst (filter (\<lambda>lt. snd lt = sel) (zip ls ts)) = ls ! i # ms
           \<and> ts ! i = sel \<and> (\<forall>j<i. ts ! j \<noteq> sel)"
  using assms
proof (induction ls ts rule: list_induct2)
  case Nil
  then show ?case by simp
next
  case (Cons l ls t ts)
  let ?hits = "\<lambda>ls ts. map fst (filter (\<lambda>lt. snd lt = sel) (zip ls ts))"
  show ?case
  proof (cases "t = sel")
    case True
    show ?thesis
    proof (intro exI conjI)
      show "0 < length (t # ts)" by simp
      show "?hits (l # ls) (t # ts) = (l # ls) ! 0 # ?hits ls ts" using True by simp
      show "(t # ts) ! 0 = sel" using True by simp
      show "\<forall>j<0. (t # ts) ! j \<noteq> sel" by simp
    qed
  next
    case False
    with Cons.prems have "sel \<in> set ts" by simp
    from Cons.IH [OF this] obtain i ms where i: "i < length ts"
      "?hits ls ts = ls ! i # ms" "ts ! i = sel" "\<forall>j<i. ts ! j \<noteq> sel"
      by auto
    show ?thesis
    proof (intro exI conjI)
      show "Suc i < length (t # ts)" using i(1) by simp
      show "?hits (l # ls) (t # ts) = (l # ls) ! Suc i # ms" using False i(2) by simp
      show "(t # ts) ! Suc i = sel" using i(3) by simp
      show "\<forall>j<Suc i. (t # ts) ! j \<noteq> sel"
        using False i(4) by (auto simp: nth_Cons split: nat.splits)
    qed
  qed
qed

lemma i_sel_of_positional:
  assumes "df_index df = map int [0..<length (col_title df)]"
    and "selected_title \<in> set (col_title df)"
  shows "\<exists>i. i < length (col_title df) \<and> i_sel_of df selected_title = Some (int i)
           \<and> col_title df ! i = selected_title \<and> (\<forall>j<i. col_title df ! j \<noteq> selected_title)"
proof -
  have "length (df_index df) = length (col_title df)"
    using assms(1) by simp
  from first_match [OF this assms(2)] obtain i ms where i: "i < length (col_title df)"
    "matches df selected_title = df_index df ! i # ms"
    "col_title df ! i = selected_title" "\<forall>j<i. col_title df ! j \<noteq> selected_title"
    unfolding matches_def by auto
  have "df_index df ! i = int i"
    using assms(1) i(1) by simp
  with i show ?thesis
    by (auto simp: i_sel_of_def)
qed

subsection \<open>The loop over the ranking\<close>

lemma iloc_row_get:
  assumes "i < length (df_index df)" and "id_col_of df = Some c"
  shows "\<exists>r v. iloc df i = Inr r \<and> row_title r = col_title df ! i \<and> row_get r c = Inr v"
  using assms
  by (cases c) (auto simp: iloc_def id_col_of_def row_get_def cell_def split: if_splits)

lemma iloc_title:
  "i < length (df_index df) \<Longrightarrow> \<exists>r. iloc df i = Inr r \<and> row_title r = col_title df ! i"
  by (simp add: iloc_def)

lemma collect_runs:
  assumes "\<forall>j\<in>set idxs. j < length (df_index df)"
  shows "\<exists>ps is c'.
           collect key tmdb df (id_col_of df) idxs (names, posters, ids) c
             = (Inr (names @ map (\<lambda>j. col_title df ! j) idxs, posters @ ps, ids @ is), c')
           \<and> length ps = length idxs \<and> length is = length idxs"
  using assms
proof (induction idxs arbitrary: names posters ids c)
  case Nil
  then show ?case by simp
next
  case (Cons i idxs)
  then have i: "i < length (df_index df)" and rest: "\<forall>j\<in>set idxs. j < length (df_index df)"
    by simp_all
  show ?case
  proof (cases "id_col_of df")
    case None
    from iloc_title [OF i] obtain r where r: "iloc df i = Inr r" "row_title r = col_title df ! i"
      by blast
    from Cons.IH [OF rest, of "names @ [col_title df ! i]" "posters @ [None]" "ids @ [-1]" c]
    obtain ps "is" c' where
      "collect key tmdb df (id_col_of df) idxs
          (names @ [col_title df ! i], posters @ [None], ids @ [-1]) c
        = (Inr ((names @ [col_title df ! i]) @ map (\<lambda>j. col_title df ! j) idxs,
               (posters @ [None]) @ ps, (ids @ [-1]) @ is), c')"
      "length ps = length idxs" "length is = length idxs"
      by blast
    with None r have
      "collect key tmdb df (id_col_of df) (i # idxs) (names, posters, ids) c
        = (Inr (names @ map (\<lambda>j. col_title df ! j) (i # idxs),
               posters @ (None # ps), ids @ (-1 # is)), c')
       \<and> length (None # ps) = length (i # idxs) \<and> length (-1 # is) = length (i # idxs)"
      by simp
    then show ?thesis by blast
  next
    case (Some col)
    from iloc_row_get [OF i Some] obtain r v where r: "iloc df i = Inr r"
      "row_title r = col_title df ! i" "row_get r col = Inr v"
      by blast
    obtain p c1 where f: "fetch_poster key tmdb c v = (p, c1)"
      by (cases "fetch_poster key tmdb c v")
    from Cons.IH [OF rest, of "names @ [col_title df ! i]" "posters @ [p]" "ids @ [v]" c1]
    obtain ps "is" c' where
      "collect key tmdb df (id_col_of df) idxs
          (names @ [col_title df ! i], posters @ [p], ids @ [v]) c1
        = (Inr ((names @ [col_title df ! i]) @ map (\<lambda>j. col_title df ! j) idxs,
               (posters @ [p]) @ ps, (ids @ [v]) @ is), c')"
      "length ps = length idxs" "length is = length idxs"
      by blast
    with Some r f have
      "collect key tmdb df (id_col_of df) (i # idxs) (names, posters, ids) c
        = (Inr (names @ map (\<lambda>j. col_title df ! j) (i # idxs),
               posters @ (p # ps), ids @ (v # is)), c')
       \<and> length (p # ps) = length (i # idxs) \<and> length (v # is) = length (i # idxs)"
      by simp
    then show ?thesis by blast
  qed
qed

lemma collect_no_id_col:
  assumes "\<forall>j\<in>set idxs. j < length (df_index df)"
  shows "collect key tmdb df None idxs (names, posters, ids) c
           = (Inr (names @ map (\<lambda>j. col_title df ! j) idxs,
                  posters @ replicate (length idxs) None,
                  ids @ replicate (length idxs) (- 1)), c)"
  using assms
proof (induction idxs arbitrary: names posters ids)
  case Nil
  then show ?case by simp
next
  case (Cons i idxs)
  then show ?case
    by (simp add: iloc_def replicate_app_Cons_same)
qed

lemma collect_lengths:
  assumes "collect key tmdb df idc idxs (names, posters, ids) c = (Inr (ns, ps, is), c')"
    and "length names = length posters" and "length posters = length ids"
  shows "length ns = length ps \<and> length ps = length is"
  using assms
proof (induction idxs arbitrary: names posters ids c)
  case Nil
  then show ?case by simp
next
  case (Cons i idxs)
  note run = Cons.prems(1)
  show ?case
  proof (cases "iloc df i")
    case (Inl e)
    with run show ?thesis by simp
  next
    case (Inr r)
    show ?thesis
    proof (cases idc)
      case None
      with Inr run have "collect key tmdb df idc idxs
          (names @ [row_title r], posters @ [None], ids @ [- 1]) c = (Inr (ns, ps, is), c')"
        by simp
      then show ?thesis
        by (rule Cons.IH) (simp_all add: Cons.prems)
    next
      case (Some col)
      show ?thesis
      proof (cases "row_get r col")
        case (Inl e)
        with Inr Some run show ?thesis by simp
      next
        case v: (Inr v)
        obtain p c1 where f: "fetch_poster key tmdb c v = (p, c1)"
          by (cases "fetch_poster key tmdb c v")
        with Inr Some v run have "collect key tmdb df idc idxs
            (names @ [row_title r], posters @ [p], ids @ [v]) c1 = (Inr (ns, ps, is), c')"
          by simp
        then show ?thesis
          by (rule Cons.IH) (simp_all add: Cons.prems)
      qed
    qed
  qed
qed

lemma collect_names_and_ids:
  "names_and_ids (fst (collect key tmdb df idc idxs (names, posters, ids) c))
     = names_and_ids (fst (collect key' tmdb' df idc idxs (names, posters', ids) c'))"
proof (induction idxs arbitrary: names posters posters' ids c c')
  case Nil
  show ?case by (simp add: names_and_ids_def)
next
  case (Cons i idxs)
  show ?case
  proof (cases "iloc df i")
    case (Inl e)
    then show ?thesis by (simp add: names_and_ids_def)
  next
    case (Inr r)
    show ?thesis
    proof (cases idc)
      case None
      with Inr show ?thesis
        using Cons.IH by simp
    next
      case (Some col)
      show ?thesis
      proof (cases "row_get r col")
        case (Inl e)
        with Inr Some show ?thesis by (simp add: names_and_ids_def)
      next
        case v: (Inr v)
        obtain p c1 where f: "fetch_poster key tmdb c v = (p, c1)"
          by (cases "fetch_poster key tmdb c v")
        obtain p' c1' where f': "fetch_poster key' tmdb' c' v = (p', c1')"
          by (cases "fetch_poster key' tmdb' c' v")
        from Inr Some v f f' show ?thesis
          using Cons.IH [of "names @ [row_title r]" "posters @ [p]" "ids @ [v]" c1
              "posters' @ [p']" c1']
          by simp
      qed
    qed
  qed
qed

lemma cache_data_grows: "cache \<subseteq>\<^sub>m snd (cache_data body cache k)"
  by (auto simp: cache_data_def map_le_def split: option.splits)

lemma collect_cache_grows: "c \<subseteq>\<^sub>m snd (collect key tmdb df idc idxs acc c)"
proof (induction idxs arbitrary: acc c)
  case Nil
  show ?case by simp
next
  case (Cons i idxs)
  obtain names posters ids where acc: "acc = (names, posters, ids)"
    by (cases acc)
  show ?case
  proof (cases "iloc df i")
    case (Inl e)
    then show ?thesis by (simp add: acc)
  next
    case (Inr r)
    show ?thesis
    proof (cases idc)
      case None
      with Inr show ?thesis
        using Cons.IH by (simp add: acc)
    next
      case (Some col)
      show ?thesis
      proof (cases "row_get r col")
        case (Inl e)
        with Inr Some show ?thesis by (simp add: acc)
      next
        case v: (Inr v)
        obtain p c1 where f: "fetch_poster key tmdb c v = (p, c1)"
          by (cases "fetch_poster key tmdb c v")
        have "c \<subseteq>\<^sub>m c1"
          using f cache_data_grows [of c "fetch_poster_body key tmdb" v]
          by (simp add: fetch_poster_def)
        moreover have "c1 \<subseteq>\<^sub>m snd (collect key tmdb df idc idxs
            (names @ [row_title r], posters @ [p], ids @ [v]) c1)"
          by (rule Cons.IH)
        ultimately have "c \<subseteq>\<^sub>m snd (collect key tmdb df idc idxs
            (names @ [row_title r], posters @ [p], ids @ [v]) c1)"
          by (rule map_le_trans)
        with Inr Some v f show ?thesis
          by (simp add: acc)
      qed
    qed
  qed
qed

subsection \<open>A run of recommend on aligned data\<close>

lemma aligned_row:
  assumes "aligned df sim" and "i < length (col_title df)"
  shows "getitem sim (int i) = Inr (sim ! i)" and "length (sim ! i) = length (col_title df)"
    and "length (df_index df) = length (col_title df)"
  using assms by (simp_all add: aligned_def getitem_def list_all_length)

lemma recommend_run:
  assumes "i_sel_of df selected_title = Some i_sel"
    and "getitem sim i_sel = Inr sim_row"
    and "length sim_row \<le> length (df_index df)"
  shows "\<exists>posters ids c'.
           recommend key tmdb selected_title df sim c
             = (Inr (map (\<lambda>j. col_title df ! j) (top_idxs sim_row i_sel), posters, ids), c')
           \<and> length posters = length (top_idxs sim_row i_sel)
           \<and> length ids = length (top_idxs sim_row i_sel)"
proof -
  have "\<forall>j\<in>set (top_idxs sim_row i_sel). j < length (df_index df)"
    using assms(3) top_idxs_set [of _ sim_row i_sel] by fastforce
  from collect_runs [OF this, of key tmdb "[]" "[]" "[]" c]
  show ?thesis
    using assms(1,2) by (simp add: recommend_def)
qed

subsection \<open>Evaluating the examples\<close>

lemmas run_defs = recommend_def i_sel_of_def matches_def getitem_def top_idxs_def sort_reverse_def
  TOP_K_def id_col_of_def iloc_def row_get_def cell_def fetch_poster_def cache_data_def
  fetch_poster_body_def truthy_def POSTER_BASE_def tmdb_down_def tmdb_up_def empty_cache_def

lemma aligned_abc_tie: "aligned catalog_abc sim_tie"
  by (simp add: aligned_def wf_dataframe_def col_ok_def catalog_abc_def sim_tie_def upt_rec)

lemma aligned_aba: "aligned catalog_aba sim_aba"
  by (simp add: aligned_def wf_dataframe_def col_ok_def catalog_aba_def sim_aba_def upt_rec)

lemma aligned_abcd: "aligned catalog_abcd sim_abcd"
  by (simp add: aligned_def wf_dataframe_def col_ok_def catalog_abcd_def sim_abcd_def upt_rec)

lemma count_list_once:
  assumes "count_list xs x \<le> 1" and "i < length xs" and "j < length xs"
    and "xs ! i = x" and "xs ! j = x"
  shows "i = j"
  using assms
proof (induction xs arbitrary: i j)
  case Nil
  then show ?case by simp
next
  case (Cons y ys)
  show ?case
  proof (cases i)
    case 0
    show ?thesis
    proof (cases j)
      case 0
      with \<open>i = 0\<close> show ?thesis by simp
    next
      case (Suc j')
      with 0 Cons.prems have "y = x" "count_list ys x = 0" "x \<in> set ys"
        by (auto split: if_splits)
      then show ?thesis by (simp add: count_list_0_iff)
    qed
  next
    case (Suc i')
    show ?thesis
    proof (cases j)
      case 0
      with Suc Cons.prems have "y = x" "count_list ys x = 0" "x \<in> set ys"
        by (auto split: if_splits)
      then show ?thesis by (simp add: count_list_0_iff)
    next
      case j: (Suc j')
      have "count_list ys x \<le> 1"
        using Cons.prems(1) by (simp split: if_splits)
      with Suc j Cons.prems have "i' = j'"
        by (intro Cons.IH) simp_all
      with Suc j show ?thesis by simp
    qed
  qed
qed

text \<open>What a run on aligned data with a known title looks like: the first row carrying
  the title is the query, its matrix row is ranked, and the titles come out in ranking
  order.\<close>

lemma recommend_aligned:
  assumes "aligned df sim" and "selected_title \<in> set (col_title df)"
  shows "\<exists>i posters ids c'.
           i < length (col_title df) \<and> col_title df ! i = selected_title
           \<and> (\<forall>j<i. col_title df ! j \<noteq> selected_title)
           \<and> recommend key tmdb selected_title df sim c
               = (Inr (map (\<lambda>j. col_title df ! j) (top_idxs (sim ! i) (int i)), posters, ids), c')
           \<and> length posters = length (top_idxs (sim ! i) (int i))
           \<and> length ids = length (top_idxs (sim ! i) (int i))"
proof -
  have "df_index df = map int [0..<length (col_title df)]"
    using assms(1) by (simp add: aligned_def)
  from i_sel_of_positional [OF this assms(2)] obtain i where i: "i < length (col_title df)"
    "i_sel_of df selected_title = Some (int i)" "col_title df ! i = selected_title"
    "\<forall>j<i. col_title df ! j \<noteq> selected_title"
    by blast
  note row = aligned_row [OF assms(1) i(1)]
  have "length (sim ! i) \<le> length (df_index df)"
    using row(2,3) by simp
  from recommend_run [OF i(2) row(1) this, where key = key and tmdb = tmdb and c = c] i(1,3,4)
  show ?thesis by blast
qed

subsection \<open>What a cache can hold\<close>

lemma cache_states_entry:
  assumes "cache_states body cache" and "cache k = Some v"
  shows "\<exists>env. v = body env k"
  using assms
proof (induction arbitrary: k v rule: cache_states.induct)
  case start
  then show ?case by simp
next
  case (call cache env k')
  show ?case
  proof (cases "cache k'")
    case None
    with call.prems have "(cache(k' \<mapsto> body env k')) k = Some v"
      by (simp add: cache_data_def)
    then show ?thesis
      using call.IH [of k v] by (cases "k = k'") auto
  next
    case (Some w)
    with call.prems have "cache k = Some v"
      by (simp add: cache_data_def)
    then show ?thesis by (rule call.IH)
  qed
next
  case (expire cache A)
  from expire.prems have "cache k = Some v"
    by (simp add: restrict_map_def split: if_splits)
  then show ?case by (rule expire.IH)
qed

lemma cache_data_value:
  assumes "cache_states body cache"
  shows "\<exists>env'. fst (cache_data (body env) cache k) = body env' k"
proof (cases "cache k")
  case None
  then have "fst (cache_data (body env) cache k) = body env k"
    by (simp add: cache_data_def)
  then show ?thesis by blast
next
  case (Some v)
  from cache_states_entry [OF assms Some] obtain env' where "v = body env' k"
    by blast
  with Some have "fst (cache_data (body env) cache k) = body env' k"
    by (simp add: cache_data_def)
  then show ?thesis by blast
qed

lemma poster_caches_after_call:
  "poster_caches None (snd (fetch_poster None tmdb_up empty_cache 7))"
  unfolding poster_caches_def fetch_poster_def empty_cache_def
  by (intro cache_states.call cache_states.start)

lemma genre_caches_start: "genre_caches None empty_cache"
  unfolding genre_caches_def empty_cache_def
  by (rule cache_states.start)

section \<open>The claims\<close>

text \<open>
  C3: a title that no record of the catalog carries gives the empty result, without an
  error and without touching the cache.
\<close>

theorem recommend_unknown_title:
  assumes "selected_title \<notin> set (col_title df)"
  shows "recommend key tmdb selected_title df sim c = (Inr ([], [], []), c)"
  using matches_absent [OF assms] by (simp add: recommend_def i_sel_of_def)

theorem recommend_unknown_title_witness:
  "''Z'' \<notin> set (col_title catalog_abc) \<and>
   recommend None tmdb_down ''Z'' catalog_abc sim_tie empty_cache = (Inr ([], [], []), empty_cache)"
proof -
  have h: "''Z'' \<notin> set (col_title catalog_abc)"
    by (simp add: catalog_abc_def)
  show ?thesis
    using h recommend_unknown_title [OF h, of None tmdb_down sim_tie empty_cache] by simp
qed

text \<open>
  C1: for a title of the catalog (catalog and matrix aligned), the titles come out in the
  order of the ranking \<open>top_idxs\<close> of the query's matrix row; along that ranking the
  scores never increase, and of two entries with the same score the one with the smaller
  original index stands first.
\<close>

theorem recommend_ranking_order:
  assumes "aligned df sim" and "selected_title \<in> set (col_title df)"
  shows "\<exists>i posters ids c'.
           i < length (col_title df) \<and> col_title df ! i = selected_title
           \<and> recommend key tmdb selected_title df sim c
               = (Inr (map (\<lambda>j. col_title df ! j) (top_idxs (sim ! i) (int i)), posters, ids), c')
           \<and> sorted_wrt (\<lambda>a b. sim ! i ! b \<le> sim ! i ! a) (top_idxs (sim ! i) (int i))
           \<and> (\<forall>p q. p < q \<and> q < length (top_idxs (sim ! i) (int i))
                 \<and> sim ! i ! (top_idxs (sim ! i) (int i) ! p)
                     = sim ! i ! (top_idxs (sim ! i) (int i) ! q)
                 \<longrightarrow> top_idxs (sim ! i) (int i) ! p < top_idxs (sim ! i) (int i) ! q)"
proof -
  from recommend_aligned [OF assms, of key tmdb c] obtain i posters ids c' where
    i: "i < length (col_title df)" "col_title df ! i = selected_title"
    and run: "recommend key tmdb selected_title df sim c
      = (Inr (map (\<lambda>j. col_title df ! j) (top_idxs (sim ! i) (int i)), posters, ids), c')"
    by blast
  let ?R = "top_idxs (sim ! i) (int i)"
  have ranked: "sorted_wrt (ranked_before (sim ! i)) ?R"
    by (rule top_idxs_sorted)
  have desc: "sorted_wrt (\<lambda>a b. sim ! i ! b \<le> sim ! i ! a) ?R"
    by (rule sorted_wrt_mono_rel [OF _ ranked]) (auto simp: ranked_before_def)
  have ties: "\<forall>p q. p < q \<and> q < length ?R \<and> sim ! i ! (?R ! p) = sim ! i ! (?R ! q)
      \<longrightarrow> ?R ! p < ?R ! q"
  proof (intro allI impI)
    fix p q
    assume pq: "p < q \<and> q < length ?R \<and> sim ! i ! (?R ! p) = sim ! i ! (?R ! q)"
    then have "ranked_before (sim ! i) (?R ! p) (?R ! q)"
      using ranked by (simp add: sorted_wrt_iff_nth_less)
    with pq show "?R ! p < ?R ! q"
      by (simp add: ranked_before_def)
  qed
  from i run desc ties show ?thesis by blast
qed

theorem recommend_ranking_order_witness:
  "aligned catalog_abc sim_tie \<and> ''A'' \<in> set (col_title catalog_abc)
   \<and> top_idxs (sim_tie ! 0) 0 = [1, 2]
   \<and> (\<exists>i posters ids c'.
         i < length (col_title catalog_abc) \<and> col_title catalog_abc ! i = ''A''
         \<and> recommend None tmdb_down ''A'' catalog_abc sim_tie empty_cache
             = (Inr (map (\<lambda>j. col_title catalog_abc ! j) (top_idxs (sim_tie ! i) (int i)),
                     posters, ids), c')
         \<and> sorted_wrt (\<lambda>a b. sim_tie ! i ! b \<le> sim_tie ! i ! a) (top_idxs (sim_tie ! i) (int i))
         \<and> (\<forall>p q. p < q \<and> q < length (top_idxs (sim_tie ! i) (int i))
               \<and> sim_tie ! i ! (top_idxs (sim_tie ! i) (int i) ! p)
                   = sim_tie ! i ! (top_idxs (sim_tie ! i) (int i) ! q)
               \<longrightarrow> top_idxs (sim_tie ! i) (int i) ! p < top_idxs (sim_tie ! i) (int i) ! q))"
proof -
  have h1: "aligned catalog_abc sim_tie"
    by (rule aligned_abc_tie)
  have h2: "''A'' \<in> set (col_title catalog_abc)"
    by (simp add: catalog_abc_def)
  have h3: "top_idxs (sim_tie ! 0) 0 = [1, 2]"
    by (simp add: sim_tie_def top_idxs_def sort_reverse_def TOP_K_def)
  from h1 h2 h3 recommend_ranking_order [OF h1 h2, of None tmdb_down empty_cache]
  show ?thesis by blast
qed

text \<open>
  C4: on a catalog of \<open>N\<close> records aligned with an \<open>N \<times> N\<close> matrix, a title of the
  catalog gives three lists of length \<open>min TOP_K (N - 1)\<close>.
\<close>

theorem recommend_length:
  assumes "aligned df sim" and "selected_title \<in> set (col_title df)"
  shows "\<exists>names posters ids c'.
           recommend key tmdb selected_title df sim c = (Inr (names, posters, ids), c')
           \<and> length names = min TOP_K (length (col_title df) - 1)
           \<and> length posters = min TOP_K (length (col_title df) - 1)
           \<and> length ids = min TOP_K (length (col_title df) - 1)"
proof -
  from recommend_aligned [OF assms, of key tmdb c] obtain i posters ids c' where
    i: "i < length (col_title df)"
    and run: "recommend key tmdb selected_title df sim c
      = (Inr (map (\<lambda>j. col_title df ! j) (top_idxs (sim ! i) (int i)), posters, ids), c')"
    and len: "length posters = length (top_idxs (sim ! i) (int i))"
      "length ids = length (top_idxs (sim ! i) (int i))"
    by blast
  have row: "length (sim ! i) = length (col_title df)"
    by (rule aligned_row(2) [OF assms(1) i])
  then have "length (top_idxs (sim ! i) (int i)) = min TOP_K (length (col_title df) - 1)"
    using top_idxs_length [of i "sim ! i"] i by simp
  with run len show ?thesis by simp
qed

theorem recommend_length_witness:
  "aligned catalog_abc sim_tie \<and> ''B'' \<in> set (col_title catalog_abc)
   \<and> min TOP_K (length (col_title catalog_abc) - 1) = 2
   \<and> (\<exists>names posters ids c'.
         recommend None tmdb_down ''B'' catalog_abc sim_tie empty_cache
           = (Inr (names, posters, ids), c')
         \<and> length names = min TOP_K (length (col_title catalog_abc) - 1)
         \<and> length posters = min TOP_K (length (col_title catalog_abc) - 1)
         \<and> length ids = min TOP_K (length (col_title catalog_abc) - 1))"
proof -
  have h1: "aligned catalog_abc sim_tie"
    by (rule aligned_abc_tie)
  have h2: "''B'' \<in> set (col_title catalog_abc)"
    by (simp add: catalog_abc_def)
  have h3: "min TOP_K (length (col_title catalog_abc) - 1) = 2"
    by (simp add: catalog_abc_def TOP_K_def)
  from h1 h2 h3 recommend_length [OF h1 h2, of None tmdb_down empty_cache]
  show ?thesis by blast
qed

text \<open>
  C9: whenever recommend returns, its three lists have the same length.
\<close>

theorem recommend_lists_same_length:
  assumes "fst (recommend key tmdb selected_title df sim c) = Inr (names, posters, ids)"
  shows "length names = length posters \<and> length posters = length ids"
proof (cases "i_sel_of df selected_title")
  case None
  with assms show ?thesis by (simp add: recommend_def)
next
  case (Some i_sel)
  show ?thesis
  proof (cases "getitem sim i_sel")
    case (Inl e)
    with Some assms show ?thesis by (simp add: recommend_def)
  next
    case (Inr sim_row)
    obtain out c' where out: "collect key tmdb df (id_col_of df) (top_idxs sim_row i_sel)
        ([], [], []) c = (out, c')"
      by (cases "collect key tmdb df (id_col_of df) (top_idxs sim_row i_sel) ([], [], []) c")
    with Some Inr assms have "out = Inr (names, posters, ids)"
      by (simp add: recommend_def)
    with out show ?thesis
      using collect_lengths [of key tmdb df "id_col_of df" "top_idxs sim_row i_sel"
          "[]" "[]" "[]" c names posters ids c']
      by simp
  qed
qed

theorem recommend_lists_same_length_witness:
  "fst (recommend (Some ''k'') tmdb_up ''A'' catalog_abc sim_tie empty_cache)
     = Inr ([''B'', ''C''],
            [Some ''https://image.tmdb.org/t/p/w500/p.jpg'',
             Some ''https://image.tmdb.org/t/p/w500/p.jpg''],
            [102, 103])
   \<and> length [''B'', ''C'']
       = length [Some ''https://image.tmdb.org/t/p/w500/p.jpg'',
                 Some ''https://image.tmdb.org/t/p/w500/p.jpg'']
   \<and> length [Some ''https://image.tmdb.org/t/p/w500/p.jpg'',
              Some ''https://image.tmdb.org/t/p/w500/p.jpg'']
       = length [102, 103 :: int]"
proof -
  have h: "fst (recommend (Some ''k'') tmdb_up ''A'' catalog_abc sim_tie empty_cache)
     = Inr ([''B'', ''C''],
            [Some ''https://image.tmdb.org/t/p/w500/p.jpg'',
             Some ''https://image.tmdb.org/t/p/w500/p.jpg''],
            [102, 103])"
    by (simp add: run_defs catalog_abc_def sim_tie_def)
  from h recommend_lists_same_length [OF h] show ?thesis by blast
qed

text \<open>
  C2, as stated, fails on a catalog in which another record carries the queried title:
  only the queried position is dropped from the ranking.  On the catalog A, B, A the
  query A returns the other A first.
\<close>

theorem recommend_duplicate_title_counterexample:
  "aligned catalog_aba sim_aba \<and> ''A'' \<in> set (col_title catalog_aba)
   \<and> fst (recommend None tmdb_down ''A'' catalog_aba sim_aba empty_cache)
       = Inr ([''A'', ''B''], [None, None], [- 1, - 1])
   \<and> ''A'' \<in> set [''A'', ''B'']"
proof -
  have "fst (recommend None tmdb_down ''A'' catalog_aba sim_aba empty_cache)
       = Inr ([''A'', ''B''], [None, None], [- 1, - 1])"
    by (simp add: run_defs catalog_aba_def sim_aba_def)
  moreover have "''A'' \<in> set (col_title catalog_aba)"
    by (simp add: catalog_aba_def)
  ultimately show ?thesis
    using aligned_aba by simp
qed

text \<open>
  C2, amended: for a title of the catalog (catalog and matrix aligned), recommend returns
  at most \<open>TOP_K\<close> entries, the queried record itself (the first row carrying the title)
  is not among them, and when no other record carries the title none of the returned
  titles equals it.
\<close>

theorem recommend_excludes_query:
  assumes "aligned df sim" and "selected_title \<in> set (col_title df)"
  shows "\<exists>i posters ids c'.
           i < length (col_title df) \<and> col_title df ! i = selected_title
           \<and> (\<forall>j<i. col_title df ! j \<noteq> selected_title)
           \<and> recommend key tmdb selected_title df sim c
               = (Inr (map (\<lambda>j. col_title df ! j) (top_idxs (sim ! i) (int i)), posters, ids), c')
           \<and> length (top_idxs (sim ! i) (int i)) \<le> TOP_K
           \<and> length posters \<le> TOP_K \<and> length ids \<le> TOP_K
           \<and> i \<notin> set (top_idxs (sim ! i) (int i))
           \<and> (count_list (col_title df) selected_title = 1
                \<longrightarrow> selected_title \<notin> set (map (\<lambda>j. col_title df ! j) (top_idxs (sim ! i) (int i))))"
proof -
  from recommend_aligned [OF assms, of key tmdb c] obtain i posters ids c' where
    i: "i < length (col_title df)" "col_title df ! i = selected_title"
      "\<forall>j<i. col_title df ! j \<noteq> selected_title"
    and run: "recommend key tmdb selected_title df sim c
      = (Inr (map (\<lambda>j. col_title df ! j) (top_idxs (sim ! i) (int i)), posters, ids), c')"
    and len: "length posters = length (top_idxs (sim ! i) (int i))"
      "length ids = length (top_idxs (sim ! i) (int i))"
    by blast
  let ?R = "top_idxs (sim ! i) (int i)"
  have row: "length (sim ! i) = length (col_title df)"
    by (rule aligned_row(2) [OF assms(1) i(1)])
  have k: "length ?R \<le> TOP_K"
    by (rule top_idxs_length_le)
  have self: "i \<notin> set ?R"
    using top_idxs_set [of i "sim ! i" "int i"] by blast
  have once: "selected_title \<notin> set (map (\<lambda>j. col_title df ! j) ?R)"
    if one: "count_list (col_title df) selected_title = 1"
  proof
    assume "selected_title \<in> set (map (\<lambda>j. col_title df ! j) ?R)"
    then obtain j where j: "j \<in> set ?R" "col_title df ! j = selected_title"
      by auto
    from top_idxs_set [OF j(1)] row have "j < length (col_title df)" "j \<noteq> i"
      by auto
    moreover have "i = j"
      using one i(1,2) j(2) \<open>j < length (col_title df)\<close>
      by (intro count_list_once [of "col_title df" selected_title]) simp_all
    ultimately show False by simp
  qed
  from i run k len self once show ?thesis
    by (intro exI [of _ i] exI [of _ posters] exI [of _ ids] exI [of _ c']) simp
qed

theorem recommend_excludes_query_witness:
  "aligned catalog_abc sim_tie \<and> ''A'' \<in> set (col_title catalog_abc)
   \<and> count_list (col_title catalog_abc) ''A'' = 1
   \<and> fst (recommend None tmdb_down ''A'' catalog_abc sim_tie empty_cache)
       = Inr ([''B'', ''C''], [None, None], [102, 103])
   \<and> (\<exists>i posters ids c'.
         i < length (col_title catalog_abc) \<and> col_title catalog_abc ! i = ''A''
         \<and> (\<forall>j<i. col_title catalog_abc ! j \<noteq> ''A'')
         \<and> recommend None tmdb_down ''A'' catalog_abc sim_tie empty_cache
             = (Inr (map (\<lambda>j. col_title catalog_abc ! j) (top_idxs (sim_tie ! i) (int i)),
                     posters, ids), c')
         \<and> length (top_idxs (sim_tie ! i) (int i)) \<le> TOP_K
         \<and> length posters \<le> TOP_K \<and> length ids \<le> TOP_K
         \<and> i \<notin> set (top_idxs (sim_tie ! i) (int i))
         \<and> (count_list (col_title catalog_abc) ''A'' = 1
              \<longrightarrow> ''A'' \<notin> set (map (\<lambda>j. col_title catalog_abc ! j)
                                   (top_idxs (sim_tie ! i) (int i)))))"
proof -
  have h1: "aligned catalog_abc sim_tie"
    by (rule aligned_abc_tie)
  have h2: "''A'' \<in> set (col_title catalog_abc)"
    by (simp add: catalog_abc_def)
  have h3: "count_list (col_title catalog_abc) ''A'' = 1"
    by (simp add: catalog_abc_def)
  have h4: "fst (recommend None tmdb_down ''A'' catalog_abc sim_tie empty_cache)
       = Inr ([''B'', ''C''], [None, None], [102, 103])"
    by (simp add: run_defs catalog_abc_def sim_tie_def)
  from h1 h2 h3 h4 recommend_excludes_query [OF h1 h2, of None tmdb_down empty_cache]
  show ?thesis by blast
qed

text \<open>
  C6: on the catalog A, B, C, D (rows labelled 0 to 3) with the matrix row
  \<open>[1.0, 0.9, 0.95, 0.1]\<close> for A, the first two titles recommended for A are C, then B.
\<close>

theorem recommend_scenario_abcd:
  assumes "wf_dataframe df" and "df_index df = [0, 1, 2, 3]"
    and "col_title df = [''A'', ''B'', ''C'', ''D'']"
    and "sim \<noteq> []" and "sim ! 0 = [1, 0.9, 0.95, 0.1 :: real]"
  shows "\<exists>names posters ids c'.
           recommend key tmdb ''A'' df sim c = (Inr (names, posters, ids), c')
           \<and> take 2 names = [''C'', ''B'']"
proof -
  have sel: "i_sel_of df ''A'' = Some 0"
    using assms(2,3) by (simp add: i_sel_of_def matches_def)
  have row: "getitem sim 0 = Inr [1, 0.9, 0.95, 0.1 :: real]"
    using assms(4,5) by (simp add: getitem_def)
  have top: "top_idxs [1, 0.9, 0.95, 0.1 :: real] 0 = [2, 1, 3]"
    by (simp add: top_idxs_def sort_reverse_def TOP_K_def)
  have "length [1, 0.9, 0.95, 0.1 :: real] \<le> length (df_index df)"
    using assms(2) by simp
  from recommend_run [OF sel row this, where key = key and tmdb = tmdb and c = c]
  obtain posters ids c' where
    "recommend key tmdb ''A'' df sim c
      = (Inr (map (\<lambda>j. col_title df ! j) [2, 1, 3], posters, ids), c')"
    unfolding top by blast
  then show ?thesis
    using assms(3) by simp
qed

theorem recommend_scenario_abcd_witness:
  "wf_dataframe catalog_abcd \<and> df_index catalog_abcd = [0, 1, 2, 3]
   \<and> col_title catalog_abcd = [''A'', ''B'', ''C'', ''D'']
   \<and> sim_abcd \<noteq> [] \<and> sim_abcd ! 0 = [1, 0.9, 0.95, 0.1]
   \<and> fst (recommend None tmdb_down ''A'' catalog_abcd sim_abcd empty_cache)
       = Inr ([''C'', ''B'', ''D''], [None, None, None], [13, 12, 14])
   \<and> (\<exists>names posters ids c'.
         recommend None tmdb_down ''A'' catalog_abcd sim_abcd empty_cache
           = (Inr (names, posters, ids), c')
         \<and> take 2 names = [''C'', ''B''])"
proof -
  have h1: "wf_dataframe catalog_abcd"
    by (simp add: wf_dataframe_def col_ok_def catalog_abcd_def)
  have h2: "df_index catalog_abcd = [0, 1, 2, 3]"
    by (simp add: catalog_abcd_def)
  have h3: "col_title catalog_abcd = [''A'', ''B'', ''C'', ''D'']"
    by (simp add: catalog_abcd_def)
  have h4: "sim_abcd \<noteq> []"
    by (simp add: sim_abcd_def)
  have h5: "sim_abcd ! 0 = [1, 0.9, 0.95, 0.1]"
    by (simp add: sim_abcd_def)
  have h6: "fst (recommend None tmdb_down ''A'' catalog_abcd sim_abcd empty_cache)
       = Inr ([''C'', ''B'', ''D''], [None, None, None], [13, 12, 14])"
    by (simp add: run_defs catalog_abcd_def sim_abcd_def)
  from h1 h2 h3 h4 h5 h6
    recommend_scenario_abcd [OF h1 h2 h3 h4 h5, of None tmdb_down empty_cache]
  show ?thesis by blast
qed

text \<open>
  C10: when the frame has neither a \<^verbatim>\<open>movie_id\<close> nor an \<^verbatim>\<open>id\<close> column, a title of the
  catalog (catalog and matrix aligned) still gives the titles in ranking order, with
  \<open>- 1\<close> as every identifier and no poster for any entry; the poster cache is not touched.
\<close>

theorem recommend_without_id_column:
  assumes "aligned df sim" and "selected_title \<in> set (col_title df)"
    and "col_movie_id df = None" and "col_id df = None"
  shows "\<exists>i. i < length (col_title df) \<and> col_title df ! i = selected_title
           \<and> recommend key tmdb selected_title df sim c
               = (Inr (map (\<lambda>j. col_title df ! j) (top_idxs (sim ! i) (int i)),
                       replicate (length (top_idxs (sim ! i) (int i))) None,
                       replicate (length (top_idxs (sim ! i) (int i))) (- 1)), c)
           \<and> sorted_wrt (ranked_before (sim ! i)) (top_idxs (sim ! i) (int i))"
proof -
  have "df_index df = map int [0..<length (col_title df)]"
    using assms(1) by (simp add: aligned_def)
  from i_sel_of_positional [OF this assms(2)] obtain i where i: "i < length (col_title df)"
    "i_sel_of df selected_title = Some (int i)" "col_title df ! i = selected_title"
    by blast
  note row = aligned_row [OF assms(1) i(1)]
  let ?R = "top_idxs (sim ! i) (int i)"
  have "\<forall>j\<in>set ?R. j < length (df_index df)"
    using row(2,3) top_idxs_set [of _ "sim ! i" "int i"] by fastforce
  from collect_no_id_col [OF this, of key tmdb "[]" "[]" "[]" c]
  have "recommend key tmdb selected_title df sim c
      = (Inr (map (\<lambda>j. col_title df ! j) ?R, replicate (length ?R) None,
              replicate (length ?R) (- 1)), c)"
    using i(2) row(1) assms(3,4) by (simp add: recommend_def id_col_of_def)
  with i(1,3) top_idxs_sorted [of "sim ! i" "int i"] show ?thesis by blast
qed

theorem recommend_without_id_column_witness:
  "aligned catalog_aba sim_aba \<and> ''B'' \<in> set (col_title catalog_aba)
   \<and> col_movie_id catalog_aba = None \<and> col_id catalog_aba = None
   \<and> recommend (Some ''k'') tmdb_up ''B'' catalog_aba sim_aba empty_cache
       = (Inr ([''A'', ''A''], [None, None], [- 1, - 1]), empty_cache)
   \<and> (\<exists>i. i < length (col_title catalog_aba) \<and> col_title catalog_aba ! i = ''B''
         \<and> recommend (Some ''k'') tmdb_up ''B'' catalog_aba sim_aba empty_cache
             = (Inr (map (\<lambda>j. col_title catalog_aba ! j) (top_idxs (sim_aba ! i) (int i)),
                     replicate (length (top_idxs (sim_aba ! i) (int i))) None,
                     replicate (length (top_idxs (sim_aba ! i) (int i))) (- 1)), empty_cache)
         \<and> sorted_wrt (ranked_before (sim_aba ! i)) (top_idxs (sim_aba ! i) (int i)))"
proof -
  have h1: "aligned catalog_aba sim_aba"
    by (rule aligned_aba)
  have h2: "''B'' \<in> set (col_title catalog_aba)"
    by (simp add: catalog_aba_def)
  have h3: "col_movie_id catalog_aba = None" and h4: "col_id catalog_aba = None"
    by (simp_all add: catalog_aba_def)
  have h5: "recommend (Some ''k'') tmdb_up ''B'' catalog_aba sim_aba empty_cache
       = (Inr ([''A'', ''A''], [None, None], [- 1, - 1]), empty_cache)"
    by (simp add: run_defs catalog_aba_def sim_aba_def)
  from h1 h2 h3 h4 h5
    recommend_without_id_column [OF h1 h2 h3 h4, of "Some ''k''" tmdb_up empty_cache]
  show ?thesis by blast
qed

text \<open>
  C5, as stated, fails: the posters are fetched from the metadata service, so the same
  title, catalog and matrix give different results when the service answers differently
  (here: unreachable at one call, answering at another, the cache empty both times, as it
  is at process start and after the entries expired).
\<close>

theorem recommend_depends_on_service_counterexample:
  "fst (recommend (Some ''k'') tmdb_down ''A'' catalog_abc sim_tie empty_cache)
     = Inr ([''B'', ''C''], [None, None], [102, 103])
   \<and> fst (recommend (Some ''k'') tmdb_up ''A'' catalog_abc sim_tie empty_cache)
     = Inr ([''B'', ''C''],
            [Some ''https://image.tmdb.org/t/p/w500/p.jpg'',
             Some ''https://image.tmdb.org/t/p/w500/p.jpg''],
            [102, 103])
   \<and> fst (recommend (Some ''k'') tmdb_down ''A'' catalog_abc sim_tie empty_cache)
     \<noteq> fst (recommend (Some ''k'') tmdb_up ''A'' catalog_abc sim_tie empty_cache)"
  by (simp add: run_defs catalog_abc_def sim_tie_def)

text \<open>
  C5, amended: the titles and identifiers recommend returns (or the error it raises) are a
  function of the selected title, the catalog and the matrix alone, whatever the
  credential, the service and the poster cache; the posters also depend on those three.
  The only state a call changes is the poster cache, which keeps every entry it had.
\<close>

theorem recommend_names_ids_pure:
  "names_and_ids (fst (recommend key tmdb selected_title df sim c))
     = names_and_ids (fst (recommend key' tmdb' selected_title df sim c'))
   \<and> c \<subseteq>\<^sub>m snd (recommend key tmdb selected_title df sim c)"
proof
  show "names_and_ids (fst (recommend key tmdb selected_title df sim c))
     = names_and_ids (fst (recommend key' tmdb' selected_title df sim c'))"
  proof (cases "i_sel_of df selected_title")
    case None
    then show ?thesis by (simp add: recommend_def)
  next
    case (Some i_sel)
    show ?thesis
    proof (cases "getitem sim i_sel")
      case (Inl e)
      with Some show ?thesis by (simp add: recommend_def)
    next
      case (Inr sim_row)
      with Some show ?thesis
        using collect_names_and_ids [of key tmdb df "id_col_of df" "top_idxs sim_row i_sel"
            "[]" "[]" "[]" c key' tmdb' "[]" c']
        by (simp add: recommend_def)
    qed
  qed
  show "c \<subseteq>\<^sub>m snd (recommend key tmdb selected_title df sim c)"
    by (simp add: recommend_def collect_cache_grows split: option.splits sum.splits)
qed

text \<open>
  C7: for a genre of the table, the handler never raises; it shows the warning when the
  two pages together hold nothing, and otherwise the first \<open>TOP_K\<close> elements of page 1
  followed by page 2, in the order in which \<^verbatim>\<open>fetch_by_genre\<close> returned them.  With a
  credential, nothing cached for the two requests and the service answering both, these
  are the service's own two result lists.
\<close>

theorem show_genre_passthrough:
  assumes "map_of GENRES genre_label = Some gid"
  shows "(\<exists>page1 cache1 page2 cache2.
            fetch_by_genre key tmdb cache (gid, 1) = (page1, cache1)
            \<and> fetch_by_genre key tmdb cache1 (gid, 2) = (page2, cache2)
            \<and> show_genre key tmdb cache genre_label
                = (Inr (if or_empty page1 @ or_empty page2 = [] then CouldntFetchWarning
                        else Cards (take TOP_K (or_empty page1 @ or_empty page2))), cache2))
         \<and> (truthy key \<and> cache (gid, 1) = None \<and> cache (gid, 2) = None
              \<and> tmdb (gid, 1) = DiscoverJson (Results ms1)
              \<and> tmdb (gid, 2) = DiscoverJson (Results ms2)
            \<longrightarrow> fst (show_genre key tmdb cache genre_label)
                  = Inr (if ms1 @ ms2 = [] then CouldntFetchWarning
                         else Cards (take TOP_K (ms1 @ ms2))))"
proof (intro conjI impI)
  obtain page1 cache1 where p1: "fetch_by_genre key tmdb cache (gid, 1) = (page1, cache1)"
    by (cases "fetch_by_genre key tmdb cache (gid, 1)")
  obtain page2 cache2 where p2: "fetch_by_genre key tmdb cache1 (gid, 2) = (page2, cache2)"
    by (cases "fetch_by_genre key tmdb cache1 (gid, 2)")
  from assms p1 p2 have "show_genre key tmdb cache genre_label
      = (Inr (if or_empty page1 @ or_empty page2 = [] then CouldntFetchWarning
              else Cards (take TOP_K (or_empty page1 @ or_empty page2))), cache2)"
    by (simp add: show_genre_def Let_def)
  with p1 p2 show "\<exists>page1 cache1 page2 cache2.
            fetch_by_genre key tmdb cache (gid, 1) = (page1, cache1)
            \<and> fetch_by_genre key tmdb cache1 (gid, 2) = (page2, cache2)
            \<and> show_genre key tmdb cache genre_label
                = (Inr (if or_empty page1 @ or_empty page2 = [] then CouldntFetchWarning
                        else Cards (take TOP_K (or_empty page1 @ or_empty page2))), cache2)"
    by blast
next
  assume fresh: "truthy key \<and> cache (gid, 1) = None \<and> cache (gid, 2) = None
      \<and> tmdb (gid, 1) = DiscoverJson (Results ms1) \<and> tmdb (gid, 2) = DiscoverJson (Results ms2)"
  then have p1: "fetch_by_genre key tmdb cache (gid, 1)
      = (Some ms1, cache((gid, 1) \<mapsto> Some ms1))"
    by (simp add: fetch_by_genre_def cache_data_def fetch_by_genre_body_def)
  from fresh have p2: "fetch_by_genre key tmdb (cache((gid, 1) \<mapsto> Some ms1)) (gid, 2)
      = (Some ms2, (cache((gid, 1) \<mapsto> Some ms1))((gid, 2) \<mapsto> Some ms2))"
    by (simp add: fetch_by_genre_def cache_data_def fetch_by_genre_body_def)
  from assms p1 p2 show "fst (show_genre key tmdb cache genre_label)
      = Inr (if ms1 @ ms2 = [] then CouldntFetchWarning else Cards (take TOP_K (ms1 @ ms2)))"
    by (simp add: show_genre_def Let_def or_empty_def)
qed

theorem show_genre_passthrough_witness:
  "map_of GENRES ''Drama'' = Some 18
   \<and> truthy (Some ''k'') \<and> (empty_cache :: nat genre_cache) (18, 1) = None
   \<and> (empty_cache :: nat genre_cache) (18, 2) = None
   \<and> discover_two_pages (18, 1) = DiscoverJson (Results [1, 2, 3])
   \<and> discover_two_pages (18, 2) = DiscoverJson (Results [4, 5, 6])
   \<and> fst (show_genre (Some ''k'') discover_two_pages empty_cache ''Drama'')
       = Inr (Cards [1, 2, 3, 4, 5])"
proof -
  have h1: "map_of GENRES ''Drama'' = Some 18"
    by (simp add: GENRES_def)
  have h2: "truthy (Some ''k'') \<and> (empty_cache :: nat genre_cache) (18, 1) = None
      \<and> (empty_cache :: nat genre_cache) (18, 2) = None
      \<and> discover_two_pages (18, 1) = DiscoverJson (Results [1, 2, 3])
      \<and> discover_two_pages (18, 2) = DiscoverJson (Results [4, 5, 6])"
    by (simp add: truthy_def empty_cache_def discover_two_pages_def)
  from show_genre_passthrough [OF h1, of "Some ''k''" discover_two_pages empty_cache
      "[1, 2, 3]" "[4, 5, 6]"] h2
  have "fst (show_genre (Some ''k'') discover_two_pages empty_cache ''Drama'')
      = Inr (if [1, 2, 3] @ [4, 5, 6] = ([] :: nat list) then CouldntFetchWarning
             else Cards (take TOP_K ([1, 2, 3] @ [4, 5, 6])))"
    by blast
  then have "fst (show_genre (Some ''k'') discover_two_pages empty_cache ''Drama'')
      = Inr (Cards [1, 2, 3, 4, 5])"
    by (simp add: TOP_K_def)
  with h1 h2 show ?thesis by blast
qed

text \<open>
  C8: without a credential (none, or an empty one), in every state the two caches can
  be in, the poster lookup returns no poster and the genre listing returns the empty
  list, for every identifier, genre and page and whatever the service would answer.
\<close>

theorem no_credential_no_data:
  assumes "\<not> truthy key" and "poster_caches key pc" and "genre_caches key gc"
  shows "fst (fetch_poster key tmdb pc movie_id) = None
         \<and> fst (fetch_by_genre key discover gc (genre_id, page)) = Some []"
proof
  from cache_data_value [of "fetch_poster_body key" pc tmdb movie_id] assms(2)
  obtain env where "fst (fetch_poster key tmdb pc movie_id) = fetch_poster_body key env movie_id"
    by (auto simp: poster_caches_def fetch_poster_def)
  then show "fst (fetch_poster key tmdb pc movie_id) = None"
    using assms(1) by (simp add: fetch_poster_body_def)
next
  from cache_data_value [of "fetch_by_genre_body key" gc discover "(genre_id, page)"] assms(3)
  obtain env where "fst (fetch_by_genre key discover gc (genre_id, page))
      = fetch_by_genre_body key env (genre_id, page)"
    by (auto simp: genre_caches_def fetch_by_genre_def)
  then show "fst (fetch_by_genre key discover gc (genre_id, page)) = Some []"
    using assms(1) by (simp add: fetch_by_genre_body_def)
qed

theorem no_credential_no_data_witness:
  "\<not> truthy None \<and> poster_caches None (snd (fetch_poster None tmdb_up empty_cache 7))
   \<and> genre_caches None (empty_cache :: nat genre_cache)
   \<and> fst (fetch_poster None tmdb_up (snd (fetch_poster None tmdb_up empty_cache 7)) 7) = None
   \<and> fst (fetch_by_genre None discover_two_pages empty_cache (18, 1)) = Some []"
proof -
  have h1: "\<not> truthy None"
    by (simp add: truthy_def)
  have h2: "poster_caches None (snd (fetch_poster None tmdb_up empty_cache 7))"
    by (rule poster_caches_after_call)
  have h3: "genre_caches None (empty_cache :: nat genre_cache)"
    by (rule genre_caches_start)
  from h1 h2 h3 no_credential_no_data [OF h1 h2 h3, of tmdb_up 7 discover_two_pages 18 1]
  show ?thesis by blast
qed

end
